theory Spec2Isabelle
  imports Main "HOL-Library.Word" "HOL-Library.Multiset"
begin

unbundle bit_operations_syntax

section \<open>The MonsGeek userspace HID driver (monsgeek\_hid.py)\<close>

text \<open>
  The driver reads 8-byte boot-keyboard reports from a hidraw node, diffs each report
  against the previous one and writes \<open>input_event\<close> structs to a uinput device.
  This theory embeds the report translator (\<open>process_hid_report\<close>), the event sink
  (\<open>emit_events\<close>), the full release (\<open>release_all_keys\<close>), connect/disconnect
  and the loops of \<open>run\<close>.

  Conventions of the embedding:
  \<^item> a byte of a Python \<open>bytes\<close> object is an \<open>8 word\<close>; keycodes and event values
    are Python ints that are never negative here, modelled as \<open>nat\<close>;
  \<^item> an event is what the source keeps in its \<open>events\<close> list: the packed bytes of
    one \<open>struct input_event\<close>;
  \<^item> a Python \<open>set\<close> is the list of its members, each once, in the order in which
    a \<open>for\<close> loop visits them. The language does not fix that order and it depends
    on how the set was built, so two sets with the same members are different values
    here when their orders differ. What the language leaves open is a parameter
    \<open>py\<close> of every function that builds a set;
  \<^item> \<open>os.write\<close> either succeeds or raises \<open>OSError\<close>; its outcome is a parameter
    \<open>wr\<close> (\<open>None\<close>: success, \<open>Some errno\<close>: raised), and every function returns the
    driver object as it is when the function returns or raises, the errno raised (if
    any), the argument of every \<open>emit_events\<close> call and the payload of every
    \<open>os.write\<close> call it made.
\<close>

subsection \<open>Constants and struct packing\<close>

type_synonym byte = "8 word"
type_synonym bytes = "byte list"

definition EV_SYN :: nat where "EV_SYN = 0"
definition EV_KEY :: nat where "EV_KEY = 1"
definition SYN_REPORT :: nat where "SYN_REPORT = 0"

text \<open>
  \<open>struct.pack("llHHi", ...)\<close> in native mode on 64-bit little-endian Linux (the
  platform the source names): two 8-byte longs, two 2-byte unsigned shorts, one 4-byte
  int, 24 bytes with no padding. \<open>pack_le n v\<close> is the \<open>n\<close>-byte little-endian
  image of \<open>v\<close>. Every value the program packs is in the range of its field
  (lemma \<open>hid_keycode_le\<close> below), so \<open>struct.error\<close> does not arise.
\<close>

definition pack_le :: "nat \<Rightarrow> nat \<Rightarrow> bytes" where
  "pack_le n v = map (\<lambda>i. of_nat (v div 256 ^ i)) [0..<n]"

definition struct_pack_llHHi :: "nat \<Rightarrow> nat \<Rightarrow> nat \<Rightarrow> nat \<Rightarrow> nat \<Rightarrow> bytes" where
  "struct_pack_llHHi sec usec typ code val =
     pack_le 8 sec @ pack_le 8 usec @ pack_le 2 typ @ pack_le 2 code @ pack_le 4 val"

definition SYN_EVENT :: bytes where
  "SYN_EVENT = struct_pack_llHHi 0 0 EV_SYN SYN_REPORT 0"

definition make_key_event :: "nat \<Rightarrow> nat \<Rightarrow> bytes" where
  "make_key_event keycode val = struct_pack_llHHi 0 0 EV_KEY keycode val"

subsection \<open>The lookup tables\<close>

definition HID_TO_LINUX_items :: "(byte \<times> nat) list" where
  "HID_TO_LINUX_items =
    [(0x04, 30), (0x05, 48), (0x06, 46), (0x07, 32), (0x08, 18), (0x09, 33),
     (0x0a, 34), (0x0b, 35), (0x0c, 23), (0x0d, 36), (0x0e, 37), (0x0f, 38),
     (0x10, 50), (0x11, 49), (0x12, 24), (0x13, 25), (0x14, 16), (0x15, 19),
     (0x16, 31), (0x17, 20), (0x18, 22), (0x19, 47), (0x1a, 17), (0x1b, 45),
     (0x1c, 21), (0x1d, 44), (0x1e, 2), (0x1f, 3), (0x20, 4), (0x21, 5),
     (0x22, 6), (0x23, 7), (0x24, 8), (0x25, 9), (0x26, 10), (0x27, 11),
     (0x28, 28), (0x29, 1), (0x2a, 14), (0x2b, 15), (0x2c, 57), (0x2d, 12),
     (0x2e, 13), (0x2f, 26), (0x30, 27), (0x31, 43), (0x32, 43), (0x33, 39),
     (0x34, 40), (0x35, 41), (0x36, 51), (0x37, 52), (0x38, 53), (0x39, 58),
     (0x3a, 59), (0x3b, 60), (0x3c, 61), (0x3d, 62), (0x3e, 63), (0x3f, 64),
     (0x40, 65), (0x41, 66), (0x42, 67), (0x43, 68), (0x44, 87), (0x45, 88),
     (0x46, 99), (0x47, 70), (0x48, 119), (0x49, 110), (0x4a, 102), (0x4b, 104),
     (0x4c, 111), (0x4d, 107), (0x4e, 109), (0x4f, 106), (0x50, 105), (0x51, 108),
     (0x52, 103), (0x53, 69), (0x54, 98), (0x55, 55), (0x56, 74), (0x57, 78),
     (0x58, 96), (0x59, 79), (0x5a, 80), (0x5b, 81), (0x5c, 75), (0x5d, 76),
     (0x5e, 77), (0x5f, 71), (0x60, 72), (0x61, 73), (0x62, 82), (0x63, 83),
     (0x64, 86), (0x65, 127), (0x66, 116), (0x67, 117)]"

text \<open>The dict: \<open>HID_TO_LINUX c = None\<close> is \<open>c not in HID_TO_LINUX\<close>.\<close>

definition HID_TO_LINUX :: "byte \<rightharpoonup> nat" where
  "HID_TO_LINUX = map_of HID_TO_LINUX_items"

definition MODIFIER_MAP :: "(nat \<times> nat) list" where
  "MODIFIER_MAP =
    [(0, 29), (1, 42), (2, 56), (3, 125), (4, 97), (5, 54), (6, 100), (7, 126)]"

subsection \<open>Python sets\<close>

text \<open>
  A set of ints, as the list of its members in iteration order. The operations
  whose result order the language leaves open are the fields of \<open>set_order\<close>:
  \<open>add_order py s x\<close> is the set \<open>s\<close> after \<open>x\<close>, not yet a member, has been
  added to it, and \<open>diff_order py a b\<close> is the new set \<open>a - b\<close>.
\<close>

type_synonym pyset = "byte list"

record set_order =
  add_order :: "pyset \<Rightarrow> byte \<Rightarrow> pyset"
  diff_order :: "pyset \<Rightarrow> pyset \<Rightarrow> pyset"

text \<open>Adding an item to a set: no effect when the item is already a member.\<close>

definition set_add :: "set_order \<Rightarrow> pyset \<Rightarrow> byte \<Rightarrow> pyset" where
  "set_add py s x = (if x \<in> set s then s else add_order py s x)"

text \<open>
  \<open>set(xs)\<close> and the display \<open>{x}\<close>: a new empty set to which the items are added
  one by one, from left to right.
\<close>

definition py_set :: "set_order \<Rightarrow> bytes \<Rightarrow> pyset" where
  "py_set py xs = foldl (set_add py) [] xs"

subsection \<open>The driver object and what a call leaves behind\<close>

text \<open>
  The fields of \<open>MonsGeekHID\<close> that the modelled methods read or write.
  \<open>uinput_fd\<close> is set once by \<open>setup_uinput\<close> before the loop starts and
  \<open>write_buffer\<close> is never used; both are left out.
\<close>

record driver =
  hidraw_fd :: "nat option"
  prev_modifiers :: byte
  prev_keys :: pyset

text \<open>\<open>__init__\<close>; \<open>[]\<close> is \<open>set()\<close>.\<close>

definition init_driver :: driver where
  "init_driver = \<lparr>hidraw_fd = None, prev_modifiers = 0, prev_keys = []\<rparr>"

datatype outcome =
  Outcome (self_after: driver) (raised: "nat option")
          (emit_calls: "bytes list list") (os_writes: "bytes list")

subsection \<open>The event sink\<close>

text \<open>
  \<open>emit_events\<close>: nothing at all for an empty list, else one \<open>os.write\<close> of the
  joined events and \<open>SYN_EVENT\<close>. Returns the errno raised (if any) and the payloads
  handed to \<open>os.write\<close>.
\<close>

definition emit_events :: "nat option \<Rightarrow> bytes list \<Rightarrow> nat option \<times> bytes list" where
  "emit_events wr events =
     (if events = [] then (None, [])
      else (wr, [concat events @ SYN_EVENT]))"

subsection \<open>The report translator\<close>

text \<open>
  The loop over \<open>MODIFIER_MAP\<close> in \<open>process_hid_report\<close> (the source's loop
  variable \<open>bit\<close> is \<open>bitpos\<close> here).
\<close>

fun modifier_events :: "(nat \<times> nat) list \<Rightarrow> byte \<Rightarrow> byte \<Rightarrow> bytes list" where
  "modifier_events [] prev modifiers = []"
| "modifier_events ((bitpos, keycode) # rest) prev modifiers =
     (let was_pressed = drop_bit bitpos prev AND 1;
          is_pressed = drop_bit bitpos modifiers AND 1
      in (if was_pressed \<noteq> is_pressed then [make_key_event keycode (unat is_pressed)] else [])
         @ modifier_events rest prev modifiers)"

text \<open>
  The two loops over scancodes: \<open>hid_codes\<close> is the set the loop runs over (its
  members in the order of the visit); a code outside the dict appends nothing.
\<close>

fun key_events :: "pyset \<Rightarrow> nat \<Rightarrow> bytes list" where
  "key_events [] val = []"
| "key_events (hid_code # rest) val =
     (case HID_TO_LINUX hid_code of
        None \<Rightarrow> key_events rest val
      | Some keycode \<Rightarrow> make_key_event keycode val # key_events rest val)"

text \<open>\<open>set(data[2:8]) - {0}\<close>.\<close>

definition report_keys :: "set_order \<Rightarrow> bytes \<Rightarrow> pyset" where
  "report_keys py data = diff_order py (py_set py (take 6 (drop 2 data))) (py_set py [0])"

text \<open>The events list built by \<open>process_hid_report\<close> before it calls the sink.\<close>

definition report_events :: "set_order \<Rightarrow> driver \<Rightarrow> bytes \<Rightarrow> bytes list" where
  "report_events py self data =
     (let modifiers = data ! 0;
          keys = report_keys py data
      in modifier_events MODIFIER_MAP (prev_modifiers self) modifiers
         @ key_events (diff_order py (prev_keys self) keys) 0
         @ key_events (diff_order py keys (prev_keys self)) 1)"

definition process_hid_report :: "set_order \<Rightarrow> nat option \<Rightarrow> driver \<Rightarrow> bytes \<Rightarrow> outcome" where
  "process_hid_report py wr self data =
     (if length data < 8 then Outcome self None [] []
      else
        let events = report_events py self data;
            (exn, writes) = emit_events wr events
        in (case exn of
              Some errno \<Rightarrow> Outcome self (Some errno) [events] writes
            | None \<Rightarrow>
                Outcome (self\<lparr>prev_modifiers := data ! 0, prev_keys := report_keys py data\<rparr>)
                        None [events] writes))"

subsection \<open>Full release, connect and disconnect\<close>

text \<open>The loop over \<open>MODIFIER_MAP\<close> in \<open>release_all_keys\<close>.\<close>

fun modifier_releases :: "(nat \<times> nat) list \<Rightarrow> byte \<Rightarrow> bytes list" where
  "modifier_releases [] prev = []"
| "modifier_releases ((bitpos, keycode) # rest) prev =
     (if drop_bit bitpos prev AND 1 \<noteq> 0 then [make_key_event keycode 0] else [])
     @ modifier_releases rest prev"

definition release_events :: "driver \<Rightarrow> bytes list" where
  "release_events self =
     key_events (prev_keys self) 0 @ modifier_releases MODIFIER_MAP (prev_modifiers self)"

definition release_all_keys :: "nat option \<Rightarrow> driver \<Rightarrow> outcome" where
  "release_all_keys wr self =
     (let events = release_events self;
          (exn, writes) = emit_events wr events
      in (case exn of
            Some errno \<Rightarrow> Outcome self (Some errno) [events] writes
          | None \<Rightarrow> Outcome (self\<lparr>prev_modifiers := 0, prev_keys := []\<rparr>) None [events] writes))"

text \<open>
  \<open>connect_hidraw\<close>: \<open>find_hidraw\<close> and \<open>os.open\<close> are the environment; what they
  did is the argument.
\<close>

datatype located = NotFound | OpenFailed nat | Opened nat

definition connect_hidraw :: "located \<Rightarrow> driver \<Rightarrow> driver \<times> bool" where
  "connect_hidraw loc self =
     (case loc of
        Opened fd \<Rightarrow> (self\<lparr>hidraw_fd := Some fd, prev_modifiers := 0, prev_keys := []\<rparr>, True)
      | OpenFailed errno \<Rightarrow> (self, False)
      | NotFound \<Rightarrow> (self, False))"

definition disconnect_hidraw :: "nat option \<Rightarrow> driver \<Rightarrow> outcome" where
  "disconnect_hidraw wr self =
     (if hidraw_fd self \<noteq> None then release_all_keys wr (self\<lparr>hidraw_fd := None\<rparr>)
      else Outcome self None [] [])"

subsection \<open>The loops of \<open>run\<close>\<close>

text \<open>
  One \<open>os.read\<close> of the inner \<open>while True\<close> loop: it returns data (and then
  \<open>wr\<close> is the outcome of the \<open>os.write\<close> that the report may cause), or it raises
  \<open>OSError\<close> with an errno.
\<close>

datatype read_step = Read bytes "nat option" | ReadFails nat

text \<open>
  The errnos that Python raises as \<open>BlockingIOError\<close> (Linux numbers: EAGAIN and
  EWOULDBLOCK 11, EALREADY 114, EINPROGRESS 115).
\<close>

definition is_BlockingIOError :: "nat \<Rightarrow> bool" where
  "is_BlockingIOError errno \<longleftrightarrow> errno = 11 \<or> errno = 114 \<or> errno = 115"

text \<open>
  The inner loop: read, translate if the data has 8 bytes or more, until something
  raises; \<open>except BlockingIOError: break\<close> catches what the read or the write raised.
  The loop ends by an exception only; after the listed reads the next one raises
  \<open>BlockingIOError\<close> (nothing left to read).
\<close>

fun drain :: "set_order \<Rightarrow> driver \<Rightarrow> read_step list \<Rightarrow> outcome" where
  "drain py self [] = Outcome self None [] []"
| "drain py self (ReadFails errno # rest) =
     (if is_BlockingIOError errno then Outcome self None [] []
      else Outcome self (Some errno) [] [])"
| "drain py self (Read data wr # rest) =
     (if length data \<ge> 8 then
        (case process_hid_report py wr self data of
           Outcome self' None calls writes \<Rightarrow>
             (case drain py self' rest of
                Outcome self'' exn calls' writes' \<Rightarrow>
                  Outcome self'' exn (calls @ calls') (writes @ writes'))
         | Outcome self' (Some errno) calls writes \<Rightarrow>
             (if is_BlockingIOError errno then Outcome self' None calls writes
              else Outcome self' (Some errno) calls writes))
      else drain py self rest)"

text \<open>
  One pass of the outer \<open>while True\<close> of \<open>run\<close>: connect if there is no handle
  (\<open>continue\<close> when that fails), drain the reads, and the handler
  \<open>except OSError as e\<close>: errno 19 disconnects (with \<open>wr_release\<close> the outcome of the
  write of the full release), errno 11 is ignored, anything else is raised again.
  \<open>select.select\<close> is taken to return; \<open>reads\<close> is empty when it reports
  nothing to read.
\<close>

definition run_try :: "set_order \<Rightarrow> read_step list \<Rightarrow> nat option \<Rightarrow> driver \<Rightarrow> outcome" where
  "run_try py reads wr_release self =
     (case drain py self reads of
        Outcome self' None calls writes \<Rightarrow> Outcome self' None calls writes
      | Outcome self' (Some errno) calls writes \<Rightarrow>
          (if errno = 19 then
             (case disconnect_hidraw wr_release self' of
                Outcome self'' exn calls' writes' \<Rightarrow>
                  Outcome self'' exn (calls @ calls') (writes @ writes'))
           else if errno \<noteq> 11 then Outcome self' (Some errno) calls writes
           else Outcome self' None calls writes))"

definition run_iteration ::
  "set_order \<Rightarrow> located \<Rightarrow> read_step list \<Rightarrow> nat option \<Rightarrow> driver \<Rightarrow> outcome" where
  "run_iteration py loc reads wr_release self =
     (if hidraw_fd self = None then
        (case connect_hidraw loc self of
           (self', False) \<Rightarrow> Outcome self' None [] []
         | (self', True) \<Rightarrow> run_try py reads wr_release self')
      else run_try py reads wr_release self)"



subsection \<open>Notions used by the properties\<close>

text \<open>
  What Python does fix about the two set operations: the result has the members it
  should have, each once.
\<close>

definition python_sets :: "set_order \<Rightarrow> bool" where
  "python_sets py \<longleftrightarrow>
     (\<forall>s x. x \<notin> set s \<longrightarrow> set (add_order py s x) = insert x (set s) \<and> distinct (add_order py s x)) \<and>
     (\<forall>a b. set (diff_order py a b) = set a - set b \<and> distinct (diff_order py a b))"

text \<open>One such order, to run the functions on examples: members in order of insertion.\<close>

definition insertion_order :: set_order where
  "insertion_order =
     \<lparr>add_order = (\<lambda>s x. remdups s @ [x]),
      diff_order = (\<lambda>a b. filter (\<lambda>x. x \<notin> set b) (remdups a))\<rparr>"


text \<open>
  The states the driver object can be in: \<open>__init__\<close>, then any of its methods, with
  any report, any outcome of the environment and whether or not the call raised.
\<close>

inductive reachable :: "set_order \<Rightarrow> driver \<Rightarrow> bool" for py where
  r_init: "reachable py init_driver"
| r_connect: "reachable py self \<Longrightarrow> reachable py (fst (connect_hidraw loc self))"
| r_report: "reachable py self \<Longrightarrow> reachable py (self_after (process_hid_report py wr self data))"
| r_release: "reachable py self \<Longrightarrow> reachable py (self_after (release_all_keys wr self))"
| r_disconnect: "reachable py self \<Longrightarrow> reachable py (self_after (disconnect_hidraw wr self))"
| r_iteration: "reachable py self \<Longrightarrow>
     reachable py (self_after (run_iteration py loc reads wr_release self))"


section \<open>Facts about the packing and the tables\<close>

lemma pack_le_2: "pack_le 2 v = [of_nat v, of_nat (v div 256)]"
  by (simp add: pack_le_def upt_rec)

lemma pack_le_4: "pack_le 4 v = [of_nat v, of_nat (v div 256), of_nat (v div 256 ^ 2), of_nat (v div 256 ^ 3)]"
  by (simp add: pack_le_def upt_rec)

lemma length_pack_le: "length (pack_le n v) = n"
  by (simp add: pack_le_def)

lemma length_struct_pack: "length (struct_pack_llHHi a b c d e) = 24"
  by (simp add: struct_pack_llHHi_def length_pack_le)

lemma byte_of_nat_eq: "(of_nat a :: byte) = of_nat b \<longleftrightarrow> a mod 256 = b mod 256"
  by (simp add: word_of_nat_eq_iff take_bit_eq_mod)

lemma two_bytes_inj:
  assumes "k < 65536" "k' < 65536" "k mod 256 = k' mod 256" "k div 256 mod 256 = k' div 256 mod 256"
  shows "k = (k'::nat)"
proof -
  have "k div 256 < 256" "k' div 256 < 256" using assms(1,2) by simp_all
  then have "k div 256 = k' div 256" using assms(4) by simp
  then show ?thesis using assms(3) by (metis div_mult_mod_eq)
qed

lemma make_key_event_inj:
  assumes "make_key_event k v = make_key_event k' v'" "k < 65536" "k' < 65536" "v < 2" "v' < 2"
  shows "k = k' \<and> v = v'"
proof -
  from assms(1) have kk: "pack_le 2 k = pack_le 2 k'" and vv: "pack_le 4 v = pack_le 4 v'"
    by (simp_all add: make_key_event_def struct_pack_llHHi_def length_pack_le)
  from kk have "k mod 256 = k' mod 256" "k div 256 mod 256 = k' div 256 mod 256"
    by (simp_all add: pack_le_2 byte_of_nat_eq)
  then have "k = k'" using assms(2,3) by (rule two_bytes_inj[rotated 2])
  moreover from vv have "v mod 256 = v' mod 256" by (simp add: pack_le_4 byte_of_nat_eq)
  then have "v = v'" using assms(4,5) by simp
  ultimately show ?thesis by simp
qed

lemma syn_not_key: "make_key_event k v \<noteq> SYN_EVENT"
proof
  assume "make_key_event k v = SYN_EVENT"
  then have "pack_le 2 EV_KEY = pack_le 2 EV_SYN"
    by (simp add: make_key_event_def SYN_EVENT_def struct_pack_llHHi_def length_pack_le)
  then show False by (simp add: pack_le_2 EV_KEY_def EV_SYN_def)
qed

lemma items_range: "\<forall>(c, k) \<in> set HID_TO_LINUX_items. k \<le> 127 \<and> 4 \<le> c \<and> c \<le> 0x67"
  by (simp add: HID_TO_LINUX_items_def)



lemma items_distinct_fst: "distinct (map fst HID_TO_LINUX_items)"
  by (simp add: HID_TO_LINUX_items_def)


lemma hid_in_items: "HID_TO_LINUX c = Some k \<Longrightarrow> (c, k) \<in> set HID_TO_LINUX_items"
  by (simp add: HID_TO_LINUX_def map_of_SomeD)







section \<open>Counting events\<close>







section \<open>Set operations\<close>

lemma set_add_order: "python_sets py \<Longrightarrow> x \<notin> set s \<Longrightarrow> set (add_order py s x) = insert x (set s)"
  by (simp add: python_sets_def)

lemma distinct_add_order: "python_sets py \<Longrightarrow> x \<notin> set s \<Longrightarrow> distinct (add_order py s x)"
  by (simp add: python_sets_def)

lemma set_diff_order: "python_sets py \<Longrightarrow> set (diff_order py a b) = set a - set b"
  by (simp add: python_sets_def)

lemma distinct_diff_order: "python_sets py \<Longrightarrow> distinct (diff_order py a b)"
  by (simp add: python_sets_def)

lemma diff_order_self: "python_sets py \<Longrightarrow> diff_order py a a = []"
  using set_diff_order[of py a a] by simp

lemma diff_order_empty: "python_sets py \<Longrightarrow> diff_order py [] a = []"
  using set_diff_order[of py "[]" a] by simp

lemma set_set_add: "python_sets py \<Longrightarrow> set (set_add py s x) = insert x (set s)"
  by (auto simp: set_add_def set_add_order)

lemma distinct_set_add: "python_sets py \<Longrightarrow> distinct s \<Longrightarrow> distinct (set_add py s x)"
  by (simp add: set_add_def distinct_add_order)

lemma set_foldl_add: "python_sets py \<Longrightarrow> set (foldl (set_add py) s xs) = set s \<union> set xs"
  by (induction xs arbitrary: s) (simp_all add: set_set_add)

lemma distinct_foldl_add: "python_sets py \<Longrightarrow> distinct s \<Longrightarrow> distinct (foldl (set_add py) s xs)"
  by (induction xs arbitrary: s) (simp_all add: distinct_set_add)

lemma set_py_set: "python_sets py \<Longrightarrow> set (py_set py xs) = set xs"
  by (simp add: py_set_def set_foldl_add)

lemma distinct_py_set: "python_sets py \<Longrightarrow> distinct (py_set py xs)"
  by (simp add: py_set_def distinct_foldl_add)

lemma set_report_keys:
  "python_sets py \<Longrightarrow> set (report_keys py data) = set (take 6 (drop 2 data)) - {0}"
  by (simp add: report_keys_def set_diff_order set_py_set)

lemma distinct_report_keys: "python_sets py \<Longrightarrow> distinct (report_keys py data)"
  by (simp add: report_keys_def distinct_diff_order)

lemma python_sets_insertion_order: "python_sets insertion_order"
  by (auto simp: python_sets_def insertion_order_def)




section \<open>A worked report\<close>

lemma modifier_events_same: "modifier_events M m m = []"
  by (induction M) auto

lemma hid_4: "HID_TO_LINUX 4 = Some 30"
  by (simp add: HID_TO_LINUX_def HID_TO_LINUX_items_def)

lemma keys_ex1: "report_keys insertion_order [1, 0, 4, 0, 0, 0, 0, 0] = [4]"
  by (simp add: report_keys_def py_set_def set_add_def insertion_order_def)

lemma mods_ex1: "modifier_events MODIFIER_MAP 0 1 = [make_key_event 29 1]"
  by (simp add: MODIFIER_MAP_def)

lemma events_ex1:
  "report_events insertion_order init_driver [1, 0, 4, 0, 0, 0, 0, 0]
     = [make_key_event 29 1, make_key_event 30 1]"
  unfolding report_events_def Let_def keys_ex1
  by (simp add: mods_ex1 init_driver_def hid_4 insertion_order_def)

lemma process_ex1:
  "process_hid_report insertion_order None init_driver [1, 0, 4, 0, 0, 0, 0, 0]
     = Outcome \<lparr>hidraw_fd = None, prev_modifiers = 1, prev_keys = [4]\<rparr> None
         [[make_key_event 29 1, make_key_event 30 1]]
         [make_key_event 29 1 @ make_key_event 30 1 @ SYN_EVENT]"
  unfolding process_hid_report_def events_ex1 keys_ex1
  by (simp add: emit_events_def init_driver_def)

lemma process_emit_calls:
  "8 \<le> length data \<Longrightarrow> emit_calls (process_hid_report py wr self data) = [report_events py self data]"
  by (auto simp: process_hid_report_def Let_def split: prod.splits option.splits)

section \<open>The event sink (C5)\<close>

text \<open>
  C5. \<open>emit_events\<close> with no events makes no \<open>os.write\<close> call (so a bare
  synchronization marker is never written); with events it makes exactly one, whose
  payload is the events joined in order followed by one \<open>SYN_EVENT\<close>. A key event and
  the marker are both 24 bytes and never equal, so the payload holds one marker only,
  as its last record.
\<close>

theorem emit_events_one_write:
  "emit_events wr [] = (None, []) \<and>
   (events \<noteq> [] \<longrightarrow> emit_events wr events = (wr, [concat events @ SYN_EVENT])) \<and>
   length SYN_EVENT = 24 \<and> length (make_key_event k v) = 24 \<and>
   make_key_event k v \<noteq> SYN_EVENT"
  by (simp add: emit_events_def SYN_EVENT_def make_key_event_def length_struct_pack
      syn_not_key[unfolded SYN_EVENT_def make_key_event_def])

theorem emit_events_one_write_witness:
  "emit_events None [make_key_event 29 1, make_key_event 30 1]
     = (None, [make_key_event 29 1 @ make_key_event 30 1 @ SYN_EVENT])"
  using emit_events_one_write[of None "[make_key_event 29 1, make_key_event 30 1]"]
  by simp

section \<open>Short reports (C6)\<close>

text \<open>
  C6. A report of fewer than 8 bytes leaves the driver object as it was
  (\<open>prev_modifiers\<close> and \<open>prev_keys\<close> included), calls \<open>emit_events\<close> not at all
  and writes nothing, whatever the state and whatever a write would do.
\<close>

theorem short_report_ignored:
  "length data < 8 \<Longrightarrow> process_hid_report py wr self data = Outcome self None [] []"
  by (simp add: process_hid_report_def)

theorem short_report_ignored_witness:
  "length [1, 0, 4 :: byte] < 8 \<and>
   process_hid_report insertion_order (Some 5)
      \<lparr>hidraw_fd = Some 3, prev_modifiers = 2, prev_keys = [5]\<rparr> [1, 0, 4]
     = Outcome \<lparr>hidraw_fd = Some 3, prev_modifiers = 2, prev_keys = [5]\<rparr> None [] []"
  using short_report_ignored[of "[1, 0, 4]" insertion_order "Some 5"
      "\<lparr>hidraw_fd = Some 3, prev_modifiers = 2, prev_keys = [5]\<rparr>"]
  by simp

section \<open>The same report twice (C9)\<close>

text \<open>
  C9, as stated, fails when the write of the first call raises: \<open>process_hid_report\<close>
  assigns \<open>prev_modifiers\<close> and \<open>prev_keys\<close> only after \<open>emit_events\<close> has
  returned, so the first call leaves the state as it was and the second call on the same
  report builds the same events and writes them. Here the first write raises errno 5
  from the initial state, and the second call emits the two presses.
\<close>

theorem same_report_twice_counterexample:
  "process_hid_report insertion_order None
      (self_after (process_hid_report insertion_order (Some 5) init_driver [1, 0, 4, 0, 0, 0, 0, 0]))
      [1, 0, 4, 0, 0, 0, 0, 0]
   = Outcome \<lparr>hidraw_fd = None, prev_modifiers = 1, prev_keys = [4]\<rparr> None
       [[make_key_event 29 1, make_key_event 30 1]]
       [make_key_event 29 1 @ make_key_event 30 1 @ SYN_EVENT]"
proof -
  have "process_hid_report insertion_order (Some 5) init_driver [1, 0, 4, 0, 0, 0, 0, 0]
     = Outcome init_driver (Some 5) [[make_key_event 29 1, make_key_event 30 1]]
         [make_key_event 29 1 @ make_key_event 30 1 @ SYN_EVENT]"
    unfolding process_hid_report_def events_ex1 keys_ex1
    by (simp add: emit_events_def)
  then show ?thesis by (simp add: process_ex1)
qed

text \<open>
  C9, amended. For a report of 8 bytes or more: if the first call of
  \<open>process_hid_report\<close> returned, a second call on the same report hands
  \<open>emit_events\<close> the empty list, so nothing is written (whatever a write would have
  done), and the driver object stays as the first call left it. If the first call
  raised (its write failed), it left the driver object unchanged, its events list was
  not empty, and the second call hands \<open>emit_events\<close> that same list again.
\<close>

theorem same_report_twice:
  assumes "python_sets py" "8 \<le> length data"
  shows "(raised (process_hid_report py wr self data) = None \<longrightarrow>
          process_hid_report py wr' (self_after (process_hid_report py wr self data)) data
            = Outcome (self_after (process_hid_report py wr self data)) None [[]] []) \<and>
         (raised (process_hid_report py wr self data) \<noteq> None \<longrightarrow>
          self_after (process_hid_report py wr self data) = self \<and>
          report_events py self data \<noteq> [] \<and>
          emit_calls (process_hid_report py wr' (self_after (process_hid_report py wr self data)) data)
            = [report_events py self data])"
proof (intro conjI impI)
  assume r: "raised (process_hid_report py wr self data) = None"
  let ?s = "self\<lparr>prev_modifiers := data ! 0, prev_keys := report_keys py data\<rparr>"
  have l: "\<not> length data < 8" using assms(2) by simp
  have "self_after (process_hid_report py wr self data) = ?s"
    using r l
    by (auto simp: process_hid_report_def Let_def split: prod.splits option.splits)
  moreover have "report_events py ?s data = []"
    by (simp add: report_events_def modifier_events_same diff_order_self[OF assms(1)])
  then have "process_hid_report py wr' ?s data = Outcome ?s None [[]] []"
    using l by (simp add: process_hid_report_def emit_events_def)
  ultimately show "process_hid_report py wr' (self_after (process_hid_report py wr self data)) data
            = Outcome (self_after (process_hid_report py wr self data)) None [[]] []" by simp
next
  assume r: "raised (process_hid_report py wr self data) \<noteq> None"
  have l: "\<not> length data < 8" using assms(2) by simp
  show s: "self_after (process_hid_report py wr self data) = self"
    using r l by (auto simp: process_hid_report_def Let_def split: prod.splits option.splits)
  show "report_events py self data \<noteq> []"
    using r l by (auto simp: process_hid_report_def emit_events_def Let_def split: prod.splits option.splits)
  show "emit_calls (process_hid_report py wr' (self_after (process_hid_report py wr self data)) data)
            = [report_events py self data]"
    unfolding s by (rule process_emit_calls[OF assms(2)])
qed

theorem same_report_twice_witness:
  "process_hid_report insertion_order (Some 5)
      \<lparr>hidraw_fd = None, prev_modifiers = 1, prev_keys = [4]\<rparr> [1, 0, 4, 0, 0, 0, 0, 0]
   = Outcome \<lparr>hidraw_fd = None, prev_modifiers = 1, prev_keys = [4]\<rparr> None [[]] []"
  using same_report_twice[of insertion_order "[1, 0, 4, 0, 0, 0, 0, 0]" None init_driver "Some 5"]
  by (simp add: python_sets_insertion_order process_ex1)

section \<open>What a report's outcome depends on (C10)\<close>





text \<open>
  Two reports with the same values in another order of first occurrence need not have
  the same outcome: the order of a set depends on the order of insertion. With members
  kept in order of insertion, scancodes 4 and 12 are pressed in the order of the slots.
\<close>

lemma hid_12: "HID_TO_LINUX 12 = Some 23"
  by (simp add: HID_TO_LINUX_def HID_TO_LINUX_items_def)

lemma keys_ex_4_12: "report_keys insertion_order [0, 0, 4, 12, 0, 0, 0, 0] = [4, 12]"
  by (simp add: report_keys_def py_set_def set_add_def insertion_order_def)

lemma keys_ex_12_4: "report_keys insertion_order [0, 0, 12, 4, 0, 0, 0, 0] = [12, 4]"
  by (simp add: report_keys_def py_set_def set_add_def insertion_order_def)

lemma slot_order_matters:
  "emit_calls (process_hid_report insertion_order None init_driver [0, 0, 4, 12, 0, 0, 0, 0])
     = [[make_key_event 30 1, make_key_event 23 1]] \<and>
   emit_calls (process_hid_report insertion_order None init_driver [0, 0, 12, 4, 0, 0, 0, 0])
     = [[make_key_event 23 1, make_key_event 30 1]] \<and>
   make_key_event 30 1 \<noteq> make_key_event 23 1"
proof -
  have a: "report_events insertion_order init_driver [0, 0, 4, 12, 0, 0, 0, 0]
      = [make_key_event 30 1, make_key_event 23 1]"
    unfolding report_events_def Let_def keys_ex_4_12
    by (simp add: modifier_events_same init_driver_def hid_4 hid_12 insertion_order_def)
  have b: "report_events insertion_order init_driver [0, 0, 12, 4, 0, 0, 0, 0]
      = [make_key_event 23 1, make_key_event 30 1]"
    unfolding report_events_def Let_def keys_ex_12_4
    by (simp add: modifier_events_same init_driver_def hid_4 hid_12 insertion_order_def)
  have c: "make_key_event 30 1 \<noteq> make_key_event 23 1"
    using make_key_event_inj[of 30 1 23 1] by auto
  show ?thesis using c by (simp add: process_emit_calls a b)
qed

section \<open>At most six pressed scancodes (C7)\<close>

lemma length_report_keys:
  assumes "python_sets py"
  shows "length (report_keys py data) \<le> 6"
proof -
  have "length (report_keys py data) = card (set (report_keys py data))"
    using distinct_report_keys[OF assms] by (simp add: distinct_card)
  also have "\<dots> \<le> card (set (take 6 (drop 2 data)))"
    unfolding set_report_keys[OF assms] by (rule card_mono) auto
  also have "\<dots> \<le> length (take 6 (drop 2 data))" by (rule card_length)
  also have "\<dots> \<le> 6" by simp
  finally show ?thesis .
qed

lemma process_keys_cases:
  "prev_keys (self_after (process_hid_report py wr self data)) = prev_keys self \<or>
   prev_keys (self_after (process_hid_report py wr self data)) = report_keys py data"
  by (auto simp: process_hid_report_def Let_def split: prod.splits option.splits)

lemma process_inv:
  assumes "python_sets py" "distinct (prev_keys self) \<and> length (prev_keys self) \<le> 6"
  shows "distinct (prev_keys (self_after (process_hid_report py wr self data))) \<and>
         length (prev_keys (self_after (process_hid_report py wr self data))) \<le> 6"
  using process_keys_cases[of py wr self data] length_report_keys[OF assms(1), of data]
    distinct_report_keys[OF assms(1), of data] assms(2) by auto

lemma release_inv:
  assumes "distinct (prev_keys self) \<and> length (prev_keys self) \<le> 6"
  shows "distinct (prev_keys (self_after (release_all_keys wr self))) \<and>
         length (prev_keys (self_after (release_all_keys wr self))) \<le> 6"
  using assms by (auto simp: release_all_keys_def Let_def split: prod.splits option.splits)

lemma disconnect_inv:
  assumes "distinct (prev_keys self) \<and> length (prev_keys self) \<le> 6"
  shows "distinct (prev_keys (self_after (disconnect_hidraw wr self))) \<and>
         length (prev_keys (self_after (disconnect_hidraw wr self))) \<le> 6"
  using release_inv[of "self\<lparr>hidraw_fd := None\<rparr>" wr] assms by (simp add: disconnect_hidraw_def)

lemma connect_inv:
  assumes "distinct (prev_keys self) \<and> length (prev_keys self) \<le> 6"
  shows "distinct (prev_keys (fst (connect_hidraw loc self))) \<and>
         length (prev_keys (fst (connect_hidraw loc self))) \<le> 6"
  using assms by (simp add: connect_hidraw_def split: located.splits)

lemma drain_inv:
  assumes "python_sets py"
  shows "distinct (prev_keys self) \<and> length (prev_keys self) \<le> 6 \<Longrightarrow>
         distinct (prev_keys (self_after (drain py self reads))) \<and>
         length (prev_keys (self_after (drain py self reads))) \<le> 6"
proof (induction reads arbitrary: self)
  case Nil
  then show ?case by simp
next
  case (Cons r reads)
  show ?case
  proof (cases r)
    case (ReadFails errno)
    with Cons.prems show ?thesis by simp
  next
    case (Read data wr)
    show ?thesis
    proof (cases "8 \<le> length data")
      case False
      with Read Cons show ?thesis by simp
    next
      case True
      obtain s e c w where p: "process_hid_report py wr self data = Outcome s e c w"
        by (cases "process_hid_report py wr self data")
      have s: "distinct (prev_keys s) \<and> length (prev_keys s) \<le> 6"
        using process_inv[OF assms Cons.prems, of wr data] p by simp
      show ?thesis
      proof (cases e)
        case None
        have "distinct (prev_keys (self_after (drain py s reads))) \<and>
              length (prev_keys (self_after (drain py s reads))) \<le> 6"
          using s by (rule Cons.IH)
        with Read True p None show ?thesis by (auto split: outcome.splits)
      next
        case (Some errno)
        with Read True p s show ?thesis by simp
      qed
    qed
  qed
qed

lemma run_try_inv:
  assumes "python_sets py" "distinct (prev_keys self) \<and> length (prev_keys self) \<le> 6"
  shows "distinct (prev_keys (self_after (run_try py reads wr_release self))) \<and>
         length (prev_keys (self_after (run_try py reads wr_release self))) \<le> 6"
proof -
  obtain s e c w where d: "drain py self reads = Outcome s e c w"
    by (cases "drain py self reads")
  have s: "distinct (prev_keys s) \<and> length (prev_keys s) \<le> 6"
    using drain_inv[OF assms, of reads] d by simp
  show ?thesis
  proof (cases e)
    case None
    with d s show ?thesis by (simp add: run_try_def)
  next
    case (Some errno)
    have "distinct (prev_keys (self_after (disconnect_hidraw wr_release s))) \<and>
          length (prev_keys (self_after (disconnect_hidraw wr_release s))) \<le> 6"
      using s by (rule disconnect_inv)
    with d s Some show ?thesis by (auto simp: run_try_def split: outcome.splits)
  qed
qed

lemma run_iteration_inv:
  assumes "python_sets py" "distinct (prev_keys self) \<and> length (prev_keys self) \<le> 6"
  shows "distinct (prev_keys (self_after (run_iteration py loc reads wr_release self))) \<and>
         length (prev_keys (self_after (run_iteration py loc reads wr_release self))) \<le> 6"
proof (cases "hidraw_fd self = None")
  case False
  then show ?thesis using run_try_inv[OF assms, of reads wr_release] by (auto simp: run_iteration_def)
next
  case True
  obtain s b where c: "connect_hidraw loc self = (s, b)" by (cases "connect_hidraw loc self")
  have s: "distinct (prev_keys s) \<and> length (prev_keys s) \<le> 6"
    using connect_inv[OF assms(2), of loc] c by simp
  show ?thesis using True c s run_try_inv[OF assms(1) s, of reads wr_release]
    by (cases b) (simp_all add: run_iteration_def)
qed

text \<open>
  C7. In every state the driver object can reach (from \<open>__init__\<close>, through any
  sequence of connects, reports, full releases, disconnects and loop passes, with any
  outcome of the writes), \<open>prev_keys\<close> is a set of at most six members: it is empty
  at the start, after a connect and after a full release, and a report sets it to the
  nonzero values of six bytes.
\<close>

theorem pressed_at_most_six:
  assumes "python_sets py" "reachable py self"
  shows "distinct (prev_keys self) \<and> card (set (prev_keys self)) \<le> 6"
proof -
  have "distinct (prev_keys self) \<and> length (prev_keys self) \<le> 6"
    using assms(2)
  proof (induction rule: reachable.induct)
    case r_init
    show ?case by (simp add: init_driver_def)
  next
    case (r_connect self loc)
    then show ?case by (simp add: connect_inv)
  next
    case (r_report self wr data)
    then show ?case by (simp add: process_inv[OF assms(1)])
  next
    case (r_release self wr)
    then show ?case by (simp add: release_inv)
  next
    case (r_disconnect self wr)
    then show ?case by (simp add: disconnect_inv)
  next
    case (r_iteration self loc reads wr_release)
    then show ?case by (simp add: run_iteration_inv[OF assms(1)])
  qed
  then show ?thesis by (simp add: distinct_card)
qed

theorem pressed_at_most_six_witness:
  "reachable insertion_order \<lparr>hidraw_fd = None, prev_modifiers = 1, prev_keys = [4]\<rparr> \<and>
   card (set (prev_keys \<lparr>hidraw_fd = None, prev_modifiers = 1, prev_keys = [4::byte]\<rparr>)) \<le> 6"
proof -
  have "reachable insertion_order
      (self_after (process_hid_report insertion_order None init_driver [1, 0, 4, 0, 0, 0, 0, 0]))"
    by (rule r_report) (rule r_init)
  then have r: "reachable insertion_order \<lparr>hidraw_fd = None, prev_modifiers = 1, prev_keys = [4]\<rparr>"
    by (simp add: process_ex1)
  show ?thesis using r pressed_at_most_six[OF python_sets_insertion_order r] by simp
qed

section \<open>The loops as comprehensions\<close>

lemma and_one_bit: "drop_bit b (w::byte) AND 1 = of_bool (bit w b)"
  by (simp add: and_one_eq bit_iff_odd_drop_bit mod_2_eq_odd)

lemma modifier_events_comp:
  "modifier_events M p m
     = [make_key_event kc (of_bool (bit m b)). (b, kc) \<leftarrow> M, bit p b \<noteq> bit m b]"
  by (induction M) (auto simp: and_one_bit)

lemma modifier_releases_comp:
  "modifier_releases M p = [make_key_event kc 0. (b, kc) \<leftarrow> M, bit p b]"
  by (induction M) (auto simp: and_one_bit)

lemma key_events_comp:
  "key_events cs v
     = [make_key_event (the (HID_TO_LINUX c)) v. c \<leftarrow> cs, HID_TO_LINUX c \<noteq> None]"
  by (induction cs) auto

lemma key_events_mem:
  "c \<in> set cs \<Longrightarrow> HID_TO_LINUX c = Some k \<Longrightarrow> make_key_event k v \<in> set (key_events cs v)"
  by (induction cs) (auto split: option.splits)

lemma modifier_bits: "map fst MODIFIER_MAP = [0..<8]"
  by (simp add: MODIFIER_MAP_def upt_rec)

section \<open>Order of the events of one report (C3)\<close>

text \<open>
  C3. For a report of 8 bytes or more, from any state, the list handed to
  \<open>emit_events\<close> is: the modifier changes, one per changed bit in the order of
  \<open>MODIFIER_MAP\<close> (bits 0 to 7), each with the new value of the bit; then a release
  for every scancode of the dict that left the pressed set; then a press for every
  scancode of the dict that entered it. The scancodes that left are the members of
  \<open>prev_keys\<close> that are not a nonzero value of bytes 2 to 7, each once, and those that
  entered are the nonzero values of bytes 2 to 7 that are not in \<open>prev_keys\<close>, each
  once. So when scancode \<open>A\<close> leaves and scancode \<open>B\<close> enters in the same report
  (both in the dict), the release of \<open>A\<close> comes before the press of \<open>B\<close>.
\<close>

theorem modifiers_releases_presses:
  assumes "python_sets py" "8 \<le> length data"
  shows "map fst MODIFIER_MAP = [0..<8] \<and>
    emit_calls (process_hid_report py wr self data) =
      [[make_key_event kc (of_bool (bit (data ! 0) b)).
          (b, kc) \<leftarrow> MODIFIER_MAP, bit (prev_modifiers self) b \<noteq> bit (data ! 0) b]
       @ [make_key_event (the (HID_TO_LINUX c)) 0.
          c \<leftarrow> diff_order py (prev_keys self) (report_keys py data), HID_TO_LINUX c \<noteq> None]
       @ [make_key_event (the (HID_TO_LINUX c)) 1.
          c \<leftarrow> diff_order py (report_keys py data) (prev_keys self), HID_TO_LINUX c \<noteq> None]] \<and>
    set (diff_order py (prev_keys self) (report_keys py data))
      = set (prev_keys self) - (set (take 6 (drop 2 data)) - {0}) \<and>
    distinct (diff_order py (prev_keys self) (report_keys py data)) \<and>
    set (diff_order py (report_keys py data) (prev_keys self))
      = (set (take 6 (drop 2 data)) - {0}) - set (prev_keys self) \<and>
    distinct (diff_order py (report_keys py data) (prev_keys self)) \<and>
    (\<forall>A B ka kb. A \<in> set (prev_keys self) - (set (take 6 (drop 2 data)) - {0}) \<longrightarrow>
        HID_TO_LINUX A = Some ka \<longrightarrow>
        B \<in> (set (take 6 (drop 2 data)) - {0}) - set (prev_keys self) \<longrightarrow>
        HID_TO_LINUX B = Some kb \<longrightarrow>
        (\<exists>xs ys zs. emit_calls (process_hid_report py wr self data)
            = [xs @ make_key_event ka 0 # ys @ make_key_event kb 1 # zs]))"
proof (intro conjI allI impI)
  show "map fst MODIFIER_MAP = [0..<8]" by (rule modifier_bits)
next
  show "emit_calls (process_hid_report py wr self data) =
      [[make_key_event kc (of_bool (bit (data ! 0) b)).
          (b, kc) \<leftarrow> MODIFIER_MAP, bit (prev_modifiers self) b \<noteq> bit (data ! 0) b]
       @ [make_key_event (the (HID_TO_LINUX c)) 0.
          c \<leftarrow> diff_order py (prev_keys self) (report_keys py data), HID_TO_LINUX c \<noteq> None]
       @ [make_key_event (the (HID_TO_LINUX c)) 1.
          c \<leftarrow> diff_order py (report_keys py data) (prev_keys self), HID_TO_LINUX c \<noteq> None]]"
    unfolding process_emit_calls[OF assms(2)] report_events_def Let_def
      modifier_events_comp key_events_comp ..
next
  show "set (diff_order py (prev_keys self) (report_keys py data))
      = set (prev_keys self) - (set (take 6 (drop 2 data)) - {0})"
    by (simp add: set_diff_order[OF assms(1)] set_report_keys[OF assms(1)])
next
  show "distinct (diff_order py (prev_keys self) (report_keys py data))"
    by (rule distinct_diff_order[OF assms(1)])
next
  show "set (diff_order py (report_keys py data) (prev_keys self))
      = (set (take 6 (drop 2 data)) - {0}) - set (prev_keys self)"
    by (simp add: set_diff_order[OF assms(1)] set_report_keys[OF assms(1)])
next
  show "distinct (diff_order py (report_keys py data) (prev_keys self))"
    by (rule distinct_diff_order[OF assms(1)])
next
  fix A B ka kb
  assume A: "A \<in> set (prev_keys self) - (set (take 6 (drop 2 data)) - {0})" "HID_TO_LINUX A = Some ka"
    and B: "B \<in> (set (take 6 (drop 2 data)) - {0}) - set (prev_keys self)" "HID_TO_LINUX B = Some kb"
  let ?M = "modifier_events MODIFIER_MAP (prev_modifiers self) (data ! 0)"
  let ?R = "key_events (diff_order py (prev_keys self) (report_keys py data)) 0"
  let ?P = "key_events (diff_order py (report_keys py data) (prev_keys self)) 1"
  have "A \<in> set (diff_order py (prev_keys self) (report_keys py data))"
    using A(1) by (simp add: set_diff_order[OF assms(1)] set_report_keys[OF assms(1)])
  then have "make_key_event ka 0 \<in> set ?R"
    using A(2) by (rule key_events_mem)
  then obtain r1 r2 where R: "?R = r1 @ make_key_event ka 0 # r2"
    by (auto simp: in_set_conv_decomp)
  have "B \<in> set (diff_order py (report_keys py data) (prev_keys self))"
    using B(1) by (simp add: set_diff_order[OF assms(1)] set_report_keys[OF assms(1)])
  then have "make_key_event kb 1 \<in> set ?P"
    using B(2) by (rule key_events_mem)
  then obtain p1 p2 where P: "?P = p1 @ make_key_event kb 1 # p2"
    by (auto simp: in_set_conv_decomp)
  have "report_events py self data = (?M @ r1) @ make_key_event ka 0 # (r2 @ p1) @ make_key_event kb 1 # p2"
    unfolding report_events_def Let_def R P by simp
  then show "\<exists>xs ys zs. emit_calls (process_hid_report py wr self data)
            = [xs @ make_key_event ka 0 # ys @ make_key_event kb 1 # zs]"
    unfolding process_emit_calls[OF assms(2)] by blast
qed

lemma hid_5: "HID_TO_LINUX 5 = Some 48"
  by (simp add: HID_TO_LINUX_def HID_TO_LINUX_items_def)

theorem modifiers_releases_presses_witness:
  "\<exists>xs ys zs. emit_calls (process_hid_report insertion_order None
        \<lparr>hidraw_fd = Some 3, prev_modifiers = 0, prev_keys = [4]\<rparr> [2, 0, 5, 0, 0, 0, 0, 0])
     = [xs @ make_key_event 30 0 # ys @ make_key_event 48 1 # zs]"
proof -
  let ?s = "\<lparr>hidraw_fd = Some 3, prev_modifiers = 0, prev_keys = [4::byte]\<rparr>"
  let ?d = "[2, 0, 5, 0, 0, 0, 0, 0] :: bytes"
  have l: "8 \<le> length ?d" by simp
  have A: "4 \<in> set (prev_keys ?s) - (set (take 6 (drop 2 ?d)) - {0})" by simp
  have B: "5 \<in> (set (take 6 (drop 2 ?d)) - {0}) - set (prev_keys ?s)" by simp
  show ?thesis
    using modifiers_releases_presses[OF python_sets_insertion_order l, of None ?s,
        THEN conjunct2, THEN conjunct2, THEN conjunct2, THEN conjunct2, THEN conjunct2, THEN conjunct2,
        rule_format, OF A hid_4 B hid_5] .
qed

section \<open>The events of a loop over a set, as a multiset\<close>

lemma key_events_map_filter:
  "key_events cs v
     = map (\<lambda>c. make_key_event (the (HID_TO_LINUX c)) v) (filter (\<lambda>c. HID_TO_LINUX c \<noteq> None) cs)"
  by (induction cs) auto

lemma mset_key_events_list:
  "mset (key_events cs v)
     = image_mset (\<lambda>c. make_key_event (the (HID_TO_LINUX c)) v)
         (filter_mset (\<lambda>c. HID_TO_LINUX c \<noteq> None) (mset cs))"
  by (simp add: key_events_map_filter)

lemma filter_mset_distinct:
  assumes "distinct cs"
  shows "filter_mset P (mset cs) = mset_set {c \<in> set cs. P c}"
proof -
  have "distinct (filter P cs)" using assms by simp
  then have "mset (filter P cs) = mset_set (set (filter P cs))" by (rule mset_set_set[symmetric])
  also have "set (filter P cs) = {c \<in> set cs. P c}" by auto
  finally show ?thesis by simp
qed

lemma mset_key_events:
  assumes "distinct cs"
  shows "mset (key_events cs v)
     = image_mset (\<lambda>c. make_key_event (the (HID_TO_LINUX c)) v)
         (mset_set {c \<in> set cs. HID_TO_LINUX c \<noteq> None})"
  unfolding mset_key_events_list filter_mset_distinct[OF assms] ..

lemma mset_modifier_releases:
  "mset (modifier_releases M p)
     = image_mset (\<lambda>(b, kc). make_key_event kc 0) (mset (filter (\<lambda>(b, kc). bit p b) M))"
  by (induction M) (auto simp: and_one_bit)

lemma modifier_releases_zero: "modifier_releases M 0 = []"
  by (induction M) auto

lemma release_events_fd: "release_events (self\<lparr>hidraw_fd := x\<rparr>) = release_events self"
  by (simp add: release_events_def)

section \<open>The full release (C2)\<close>

lemma hid_0x1a: "HID_TO_LINUX 0x1a = Some 17"
  by (simp add: HID_TO_LINUX_def HID_TO_LINUX_items_def)

lemma release_ex:
  "release_events \<lparr>hidraw_fd = Some 3, prev_modifiers = 2, prev_keys = [0x1a]\<rparr>
     = [make_key_event 17 0, make_key_event 42 0]"
  by (simp add: release_events_def hid_0x1a MODIFIER_MAP_def)

text \<open>
  C2, as stated, fails when the write raises: \<open>release_all_keys\<close> clears
  \<open>prev_modifiers\<close> and \<open>prev_keys\<close> only after \<open>emit_events\<close> has returned,
  so a failing write leaves both as they were. Here W and left shift are held and the
  write raises errno 9: the full release, alone or through \<open>disconnect_hidraw\<close>,
  ends with the exception and with \<open>prev_modifiers = 2\<close>, \<open>prev_keys = {0x1a}\<close>.
\<close>

theorem full_release_counterexample:
  "release_all_keys (Some 9) \<lparr>hidraw_fd = Some 3, prev_modifiers = 2, prev_keys = [0x1a]\<rparr>
   = Outcome \<lparr>hidraw_fd = Some 3, prev_modifiers = 2, prev_keys = [0x1a]\<rparr> (Some 9)
       [[make_key_event 17 0, make_key_event 42 0]]
       [make_key_event 17 0 @ make_key_event 42 0 @ SYN_EVENT] \<and>
   disconnect_hidraw (Some 9) \<lparr>hidraw_fd = Some 3, prev_modifiers = 2, prev_keys = [0x1a]\<rparr>
   = Outcome \<lparr>hidraw_fd = None, prev_modifiers = 2, prev_keys = [0x1a]\<rparr> (Some 9)
       [[make_key_event 17 0, make_key_event 42 0]]
       [make_key_event 17 0 @ make_key_event 42 0 @ SYN_EVENT]"
  by (simp add: disconnect_hidraw_def release_all_keys_def emit_events_def Let_def
      release_events_def hid_0x1a MODIFIER_MAP_def)

text \<open>
  C2, amended. From any state \<open>release_all_keys\<close> (and \<open>disconnect_hidraw\<close>,
  which calls it when there is a handle) hands \<open>emit_events\<close> one list that holds, as
  a multiset, one release event for each member of \<open>prev_keys\<close> that is in the dict
  (\<open>prev_keys\<close> lists each of its members once) and one release event for each set
  bit of \<open>prev_modifiers\<close> (\<open>MODIFIER_MAP\<close> has one entry per bit 0 to 7). If the
  list is empty nothing is written, and if it is not it is written in one write; when
  that write succeeds, or there was nothing to write, the call leaves
  \<open>prev_modifiers = 0\<close> and \<open>prev_keys\<close> empty; when the write raises, the call
  ends with that exception and leaves \<open>prev_modifiers\<close> and \<open>prev_keys\<close> as they
  were. With nothing pressed the list is empty.
\<close>

theorem full_release:
  "release_all_keys wr self
     = (if release_events self = [] then
          Outcome (self\<lparr>prev_modifiers := 0, prev_keys := []\<rparr>) None [[]] []
        else case wr of
          None \<Rightarrow> Outcome (self\<lparr>prev_modifiers := 0, prev_keys := []\<rparr>) None
                    [release_events self] [concat (release_events self) @ SYN_EVENT]
        | Some errno \<Rightarrow> Outcome self (Some errno)
                    [release_events self] [concat (release_events self) @ SYN_EVENT]) \<and>
    (hidraw_fd self \<noteq> None \<longrightarrow> disconnect_hidraw wr self
     = (if release_events self = [] then
          Outcome (self\<lparr>hidraw_fd := None, prev_modifiers := 0, prev_keys := []\<rparr>) None [[]] []
        else case wr of
          None \<Rightarrow> Outcome (self\<lparr>hidraw_fd := None, prev_modifiers := 0, prev_keys := []\<rparr>) None
                    [release_events self] [concat (release_events self) @ SYN_EVENT]
        | Some errno \<Rightarrow> Outcome (self\<lparr>hidraw_fd := None\<rparr>) (Some errno)
                    [release_events self] [concat (release_events self) @ SYN_EVENT])) \<and>
    mset (release_events self)
     = image_mset (\<lambda>c. make_key_event (the (HID_TO_LINUX c)) 0)
         (filter_mset (\<lambda>c. HID_TO_LINUX c \<noteq> None) (mset (prev_keys self)))
       + image_mset (\<lambda>(b, kc). make_key_event kc 0)
           (mset (filter (\<lambda>(b, kc). bit (prev_modifiers self) b) MODIFIER_MAP)) \<and>
    (distinct (prev_keys self) \<longrightarrow>
       filter_mset (\<lambda>c. HID_TO_LINUX c \<noteq> None) (mset (prev_keys self))
         = mset_set {c \<in> set (prev_keys self). HID_TO_LINUX c \<noteq> None}) \<and>
    map fst MODIFIER_MAP = [0..<8] \<and>
    (prev_keys self = [] \<and> prev_modifiers self = 0 \<longrightarrow> release_events self = [])"
proof (intro conjI impI)
  show "release_all_keys wr self
     = (if release_events self = [] then
          Outcome (self\<lparr>prev_modifiers := 0, prev_keys := []\<rparr>) None [[]] []
        else case wr of
          None \<Rightarrow> Outcome (self\<lparr>prev_modifiers := 0, prev_keys := []\<rparr>) None
                    [release_events self] [concat (release_events self) @ SYN_EVENT]
        | Some errno \<Rightarrow> Outcome self (Some errno)
                    [release_events self] [concat (release_events self) @ SYN_EVENT])"
    by (simp add: release_all_keys_def emit_events_def Let_def split: option.splits)
next
  assume "hidraw_fd self \<noteq> None"
  then show "disconnect_hidraw wr self
     = (if release_events self = [] then
          Outcome (self\<lparr>hidraw_fd := None, prev_modifiers := 0, prev_keys := []\<rparr>) None [[]] []
        else case wr of
          None \<Rightarrow> Outcome (self\<lparr>hidraw_fd := None, prev_modifiers := 0, prev_keys := []\<rparr>) None
                    [release_events self] [concat (release_events self) @ SYN_EVENT]
        | Some errno \<Rightarrow> Outcome (self\<lparr>hidraw_fd := None\<rparr>) (Some errno)
                    [release_events self] [concat (release_events self) @ SYN_EVENT])"
    by (simp add: disconnect_hidraw_def release_all_keys_def emit_events_def Let_def
        release_events_fd split: option.splits)
next
  show "mset (release_events self)
     = image_mset (\<lambda>c. make_key_event (the (HID_TO_LINUX c)) 0)
         (filter_mset (\<lambda>c. HID_TO_LINUX c \<noteq> None) (mset (prev_keys self)))
       + image_mset (\<lambda>(b, kc). make_key_event kc 0)
           (mset (filter (\<lambda>(b, kc). bit (prev_modifiers self) b) MODIFIER_MAP))"
    by (simp add: release_events_def mset_key_events_list mset_modifier_releases)
next
  assume "distinct (prev_keys self)"
  then show "filter_mset (\<lambda>c. HID_TO_LINUX c \<noteq> None) (mset (prev_keys self))
         = mset_set {c \<in> set (prev_keys self). HID_TO_LINUX c \<noteq> None}"
    by (rule filter_mset_distinct)
next
  show "map fst MODIFIER_MAP = [0..<8]" by (rule modifier_bits)
next
  assume "prev_keys self = [] \<and> prev_modifiers self = 0"
  then show "release_events self = []"
    by (simp add: release_events_def modifier_releases_zero)
qed

theorem full_release_witness:
  "disconnect_hidraw None \<lparr>hidraw_fd = Some 3, prev_modifiers = 2, prev_keys = [0x1a]\<rparr>
   = Outcome \<lparr>hidraw_fd = None, prev_modifiers = 0, prev_keys = []\<rparr> None
       [[make_key_event 17 0, make_key_event 42 0]]
       [make_key_event 17 0 @ make_key_event 42 0 @ SYN_EVENT]"
  using full_release[of None "\<lparr>hidraw_fd = Some 3, prev_modifiers = 2, prev_keys = [0x1a]\<rparr>",
      THEN conjunct2, THEN conjunct1]
  by (simp add: release_ex)

section \<open>Scancodes outside the dict (C8)\<close>

lemma mset_report_events:
  assumes "python_sets py"
  shows "mset (report_events py self data)
     = mset (modifier_events MODIFIER_MAP (prev_modifiers self) (data ! 0))
       + image_mset (\<lambda>c. make_key_event (the (HID_TO_LINUX c)) 0)
           (mset_set {c \<in> set (prev_keys self) - set (report_keys py data). HID_TO_LINUX c \<noteq> None})
       + image_mset (\<lambda>c. make_key_event (the (HID_TO_LINUX c)) 1)
           (mset_set {c \<in> set (report_keys py data) - set (prev_keys self). HID_TO_LINUX c \<noteq> None})"
  by (simp add: report_events_def Let_def mset_key_events[OF distinct_diff_order[OF assms]]
      set_diff_order[OF assms])

lemma release_emit_calls: "emit_calls (release_all_keys wr self) = [release_events self]"
  by (auto simp: release_all_keys_def Let_def split: prod.splits option.splits)

lemma process_keys_ok:
  "8 \<le> length data \<Longrightarrow>
   prev_keys (self_after (process_hid_report py None self data)) = report_keys py data"
  by (simp add: process_hid_report_def emit_events_def Let_def)

lemma unmapped_filter:
  assumes "HID_TO_LINUX c = None"
  shows "{x \<in> (A - {c}) - (B - {c}). HID_TO_LINUX x \<noteq> None} = {x \<in> A - B. HID_TO_LINUX x \<noteq> None}"
    and "{x \<in> A - {c}. HID_TO_LINUX x \<noteq> None} = {x \<in> A. HID_TO_LINUX x \<noteq> None}"
  using assms by auto

text \<open>
  C8. A scancode \<open>c\<close> outside the dict is in \<open>prev_keys\<close> after a report of 8 bytes
  or more exactly when it fills one of the six slots (the dict plays no part in
  \<open>prev_keys\<close>), and it is diffed like any other; but it adds no event: the events of
  a report are, as a multiset, those of the same report and state with \<open>c\<close> taken out
  of both pressed sets, and so are the events of the full release (there, the loop
  runs over \<open>prev_keys\<close> itself, a set: no member twice).
\<close>

theorem unmapped_scancode:
  assumes "python_sets py" "HID_TO_LINUX c = None" "8 \<le> length data"
  shows
   "(c \<in> set (prev_keys (self_after (process_hid_report py None self data)))
       \<longleftrightarrow> c \<in> set (take 6 (drop 2 data)) \<and> c \<noteq> 0) \<and>
    (\<forall>(self'::driver) data'. 8 \<le> length data' \<longrightarrow> data' ! 0 = data ! 0 \<longrightarrow>
        set (report_keys py data') = set (report_keys py data) - {c} \<longrightarrow>
        prev_modifiers self' = prev_modifiers self \<longrightarrow>
        set (prev_keys self') = set (prev_keys self) - {c} \<longrightarrow>
        mset (concat (emit_calls (process_hid_report py wr self' data')))
          = mset (concat (emit_calls (process_hid_report py wr self data)))) \<and>
    (\<forall>self'::driver. prev_modifiers self' = prev_modifiers self \<longrightarrow>
        distinct (prev_keys self) \<longrightarrow> distinct (prev_keys self') \<longrightarrow>
        set (prev_keys self') = set (prev_keys self) - {c} \<longrightarrow>
        mset (concat (emit_calls (release_all_keys wr self')))
          = mset (concat (emit_calls (release_all_keys wr self))))"
proof (intro conjI allI impI)
  show "c \<in> set (prev_keys (self_after (process_hid_report py None self data)))
       \<longleftrightarrow> c \<in> set (take 6 (drop 2 data)) \<and> c \<noteq> 0"
    by (simp add: process_keys_ok[OF assms(3)] set_report_keys[OF assms(1)])
next
  fix self' :: driver and data'
  assume "8 \<le> length data'" and m: "data' ! 0 = data ! 0"
    and k: "set (report_keys py data') = set (report_keys py data) - {c}"
    and pm: "prev_modifiers self' = prev_modifiers self"
    and pk: "set (prev_keys self') = set (prev_keys self) - {c}"
  then have "mset (report_events py self' data') = mset (report_events py self data)"
    unfolding mset_report_events[OF assms(1)] k pk pm m
      unmapped_filter(1)[OF assms(2)] by simp
  then show "mset (concat (emit_calls (process_hid_report py wr self' data')))
          = mset (concat (emit_calls (process_hid_report py wr self data)))"
    using \<open>8 \<le> length data'\<close> assms(3) by (simp add: process_emit_calls)
next
  fix self' :: driver
  assume pm: "prev_modifiers self' = prev_modifiers self"
    and d: "distinct (prev_keys self)" and d': "distinct (prev_keys self')"
    and pk: "set (prev_keys self') = set (prev_keys self) - {c}"
  have "mset (release_events self') = mset (release_events self)"
    unfolding release_events_def mset_append mset_key_events[OF d] mset_key_events[OF d'] pk pm
      unmapped_filter(2)[OF assms(2)] by simp
  then show "mset (concat (emit_calls (release_all_keys wr self')))
          = mset (concat (emit_calls (release_all_keys wr self)))"
    by (simp add: release_emit_calls)
qed

lemma hid_1: "HID_TO_LINUX 1 = None"
  by (simp add: HID_TO_LINUX_def HID_TO_LINUX_items_def)

theorem unmapped_scancode_witness:
  "1 \<in> set (prev_keys (self_after (process_hid_report insertion_order None init_driver
          [0, 0, 1, 4, 0, 0, 0, 0]))) \<and>
   mset (concat (emit_calls (process_hid_report insertion_order None init_driver
          [0, 0, 0, 4, 0, 0, 0, 0])))
    = mset (concat (emit_calls (process_hid_report insertion_order None init_driver
          [0, 0, 1, 4, 0, 0, 0, 0])))"
proof -
  let ?d = "[0, 0, 1, 4, 0, 0, 0, 0] :: bytes"
  let ?d' = "[0, 0, 0, 4, 0, 0, 0, 0] :: bytes"
  have l: "8 \<le> length ?d" "8 \<le> length ?d'" by simp_all
  note t = unmapped_scancode[OF python_sets_insertion_order hid_1 l(1), of init_driver None]
  have k: "set (report_keys insertion_order ?d') = set (report_keys insertion_order ?d) - {1}"
    by (auto simp: set_report_keys[OF python_sets_insertion_order])
  have p: "set (prev_keys init_driver) = set (prev_keys init_driver) - {1}" by (simp add: init_driver_def)
  have "1 \<in> set (prev_keys (self_after (process_hid_report insertion_order None init_driver ?d)))"
    using t[THEN conjunct1] by simp
  moreover have "mset (concat (emit_calls (process_hid_report insertion_order None init_driver ?d')))
    = mset (concat (emit_calls (process_hid_report insertion_order None init_driver ?d)))"
    using t[THEN conjunct2, THEN conjunct1, rule_format, of ?d' init_driver] l(2) k p by simp
  ultimately show ?thesis by simp
qed

section \<open>Counting the events of a run of reports\<close>






section \<open>Presses minus releases over a run of reports (C1)\<close>



















lemma hid_nonzero: "HID_TO_LINUX c = Some k \<Longrightarrow> c \<noteq> 0"
  using items_range hid_in_items by fastforce




section \<open>A write that fails (C4)\<close>



lemma blocking_not_19: "is_BlockingIOError errno \<Longrightarrow> errno \<noteq> 19"
  by (auto simp: is_BlockingIOError_def)












end
